theory Spec2Isabelle
  imports Complex_Main
begin

section \<open>Text moderation\<close>

text \<open>
  The server (and, identically, \<^verbatim>\<open>client/src/utils/moderation.ts\<close>) keeps a fixed list of
  banned words, a detector \<^verbatim>\<open>containsBannedWords\<close> and a rewriter \<^verbatim>\<open>filterMessage\<close>.
  A JavaScript string is modelled as a \<^typ>\<open>string\<close>: a list of code units, here in the
  8-bit range.
\<close>

definition BANNED_WORDS :: "string list" where
  "BANNED_WORDS =
     [''n1gg'', ''n1gger'', ''n1gga'', ''n1ggas'', ''n1ggers'',
      ''r3tard'', ''r3tarded'',
      ''f4ggot'', ''f4g'',
      ''k1ke'',
      ''sp1c'', ''sp1ck'',
      ''ch1nk'',
      ''w3tback'',
      ''t0welhead'',
      ''g00k'',
      ''d1ke'',
      ''tr4nny'',
      ''wh0re'', ''slut'',
      ''n4zi'', ''n4zis'',
      ''terrorist'', ''terrorism'']"

text \<open>
  Character tables. \<^verbatim>\<open>String.prototype.toLowerCase\<close> on one code unit below 256 sends
  the letters A-Z to a-z and the Latin-1 capitals 0xC0-0xDE (without the multiplication
  sign 0xD7) to the code unit 32 above; every other code unit below 256 stays.
\<close>

definition asciiUpper :: string where
  "asciiUpper = ''ABCDEFGHIJKLMNOPQRSTUVWXYZ''"

definition asciiLower :: string where
  "asciiLower = ''abcdefghijklmnopqrstuvwxyz''"

definition asciiDigits :: string where
  "asciiDigits = ''0123456789''"

definition latin1Upper :: string where
  "latin1Upper =
     [CHR 0xC0, CHR 0xC1, CHR 0xC2, CHR 0xC3, CHR 0xC4, CHR 0xC5, CHR 0xC6, CHR 0xC7,
      CHR 0xC8, CHR 0xC9, CHR 0xCA, CHR 0xCB, CHR 0xCC, CHR 0xCD, CHR 0xCE, CHR 0xCF,
      CHR 0xD0, CHR 0xD1, CHR 0xD2, CHR 0xD3, CHR 0xD4, CHR 0xD5, CHR 0xD6,
      CHR 0xD8, CHR 0xD9, CHR 0xDA, CHR 0xDB, CHR 0xDC, CHR 0xDD, CHR 0xDE]"

definition latin1Lower :: string where
  "latin1Lower =
     [CHR 0xE0, CHR 0xE1, CHR 0xE2, CHR 0xE3, CHR 0xE4, CHR 0xE5, CHR 0xE6, CHR 0xE7,
      CHR 0xE8, CHR 0xE9, CHR 0xEA, CHR 0xEB, CHR 0xEC, CHR 0xED, CHR 0xEE, CHR 0xEF,
      CHR 0xF0, CHR 0xF1, CHR 0xF2, CHR 0xF3, CHR 0xF4, CHR 0xF5, CHR 0xF6,
      CHR 0xF8, CHR 0xF9, CHR 0xFA, CHR 0xFB, CHR 0xFC, CHR 0xFD, CHR 0xFE]"

text \<open>\<open>translate from to c\<close>: the entry of \<open>to\<close> at the position of \<open>c\<close> in \<open>from\<close>, or \<open>c\<close> itself.\<close>

fun translate :: "string \<Rightarrow> string \<Rightarrow> char \<Rightarrow> char" where
  "translate (a # as) (b # bs) c = (if c = a then b else translate as bs c)"
| "translate _ _ c = c"

definition toLowerCase_char :: "char \<Rightarrow> char" where
  "toLowerCase_char c = translate (asciiUpper @ latin1Upper) (asciiLower @ latin1Lower) c"

definition toLowerCase :: "string \<Rightarrow> string" where
  "toLowerCase s = map toLowerCase_char s"

text \<open>The character class \<^verbatim>\<open>[a-z0-9]\<close>; \<^verbatim>\<open>replace(/[^a-z0-9]/g, '')\<close> keeps exactly its members.\<close>

definition isAlnumLower :: "char \<Rightarrow> bool" where
  "isAlnumLower c = (c \<in> set (asciiLower @ asciiDigits))"

definition stripNonAlnum :: "string \<Rightarrow> string" where
  "stripNonAlnum s = filter isAlnumLower s"

text \<open>\<^verbatim>\<open>a.startsWith(w)\<close> and \<^verbatim>\<open>a.includes(w)\<close>, by exact comparison of code units.\<close>

fun startsWith :: "string \<Rightarrow> string \<Rightarrow> bool" where
  "startsWith s [] = True"
| "startsWith [] (p # ps) = False"
| "startsWith (c # cs) (p # ps) = (c = p \<and> startsWith cs ps)"

fun includes_str :: "string \<Rightarrow> string \<Rightarrow> bool" where
  "includes_str [] w = startsWith [] w"
| "includes_str (c # cs) w = (startsWith (c # cs) w \<or> includes_str cs w)"

definition containsBannedWords :: "string \<Rightarrow> bool" where
  "containsBannedWords message =
     (let normalizedMessage = stripNonAlnum (toLowerCase message) in
      list_ex (\<lambda>word.
         let normalizedWord = stripNonAlnum (toLowerCase word) in
         includes_str normalizedMessage normalizedWord) BANNED_WORDS)"

text \<open>
  \<^verbatim>\<open>new RegExp(word, 'gi')\<close>: every banned word consists of characters of \<^verbatim>\<open>[a-z0-9]\<close>
  only, so the pattern is a literal, compared without regard to case. For such a
  pattern character the regular expression's canonicalisation identifies a code unit
  with it exactly when the two agree after mapping a-z to A-Z, since no
  code unit outside ASCII canonicalises into ASCII.
\<close>

definition canonicalize :: "char \<Rightarrow> char" where
  "canonicalize c = translate asciiLower asciiUpper c"

text \<open>Does the pattern match at the very start of the text?\<close>

fun matchesAt :: "string \<Rightarrow> string \<Rightarrow> bool" where
  "matchesAt [] s = True"
| "matchesAt (p # ps) [] = False"
| "matchesAt (p # ps) (c # cs) = (canonicalize c = canonicalize p \<and> matchesAt ps cs)"

text \<open>
  \<^verbatim>\<open>text.replace(regex, '***')\<close> with the global flag: scan from the left; where the
  pattern matches, emit three stars and continue behind the match, otherwise copy one
  code unit. The patterns of \<open>BANNED_WORDS\<close> are never empty.
\<close>

fun replaceAll :: "string \<Rightarrow> string \<Rightarrow> string" where
  "replaceAll w [] = []"
| "replaceAll w (c # cs) =
     (if matchesAt w (c # cs)
      then ''***'' @ replaceAll w (drop (length w - 1) cs)
      else c # replaceAll w cs)"

text \<open>The \<^verbatim>\<open>forEach\<close> loop of \<^verbatim>\<open>filterMessage\<close>: one global replacement per banned word, in order.\<close>

fun replaceEach :: "string list \<Rightarrow> string \<Rightarrow> string" where
  "replaceEach [] filteredMessage = filteredMessage"
| "replaceEach (word # ws) filteredMessage = replaceEach ws (replaceAll word filteredMessage)"

definition filterMessage :: "string \<Rightarrow> string" where
  "filterMessage message =
     (if \<not> containsBannedWords message then message
      else replaceEach BANNED_WORDS message)"

text \<open>
  An occurrence of the pattern somewhere in the text: what the regular expression can find.
\<close>

fun occurs :: "string \<Rightarrow> string \<Rightarrow> bool" where
  "occurs w [] = matchesAt w []"
| "occurs w (c # cs) = (matchesAt w (c # cs) \<or> occurs w cs)"

section \<open>Values on the wire\<close>

text \<open>
  Event payloads arrive as deserialised JSON. TypeScript's interfaces are erased at run
  time, so a payload declared \<^verbatim>\<open>UserPreferences\<close> is whatever the client sent.
\<close>

datatype jsval =
    JUndefined
  | JNull
  | JBool bool
  | JNum real
  | JStr string
  | JArr "jsval list"
  | JObj "(string \<times> jsval) list"

text \<open>JavaScript truthiness of a value.\<close>

fun truthy :: "jsval \<Rightarrow> bool" where
  "truthy JUndefined = False"
| "truthy JNull = False"
| "truthy (JBool b) = b"
| "truthy (JNum x) = (x \<noteq> 0)"
| "truthy (JStr t) = (t \<noteq> [])"
| "truthy (JArr xs) = True"
| "truthy (JObj kvs) = True"

text \<open>
  Property access \<^verbatim>\<open>v.name\<close> for the names used here (none of them is a built-in
  property of a primitive or an array): an object yields the stored value, anything else
  \<^verbatim>\<open>undefined\<close>. It is only ever applied to truthy values.
\<close>

fun getProp :: "string \<Rightarrow> jsval \<Rightarrow> jsval" where
  "getProp name (JObj kvs) = (case map_of kvs name of Some v \<Rightarrow> v | None \<Rightarrow> JUndefined)"
| "getProp name _ = JUndefined"

definition tags :: "jsval \<Rightarrow> jsval" where
  "tags p = getProp ''tags'' p"

definition language :: "jsval \<Rightarrow> jsval" where
  "language p = getProp ''language'' p"

definition ageGroup :: "jsval \<Rightarrow> jsval" where
  "ageGroup p = getProp ''ageGroup'' p"

definition agreeToGuidelines :: "jsval \<Rightarrow> jsval" where
  "agreeToGuidelines p = getProp ''agreeToGuidelines'' p"

fun isArray :: "jsval \<Rightarrow> bool" where
  "isArray (JArr xs) = True"
| "isArray _ = False"

fun isString :: "jsval \<Rightarrow> bool" where
  "isString (JStr t) = True"
| "isString _ = False"

fun isBoolean :: "jsval \<Rightarrow> bool" where
  "isBoolean (JBool b) = True"
| "isBoolean _ = False"

text \<open>The elements of an array value (nothing for any other value).\<close>

fun elems :: "jsval \<Rightarrow> jsval list" where
  "elems (JArr xs) = xs"
| "elems _ = []"

text \<open>
  \<^verbatim>\<open>===\<close> and the comparison inside \<^verbatim>\<open>Array.prototype.includes\<close>: primitives by value;
  arrays and objects by identity, and two values deserialised from different messages
  are never the same object.
\<close>

fun strictEq :: "jsval \<Rightarrow> jsval \<Rightarrow> bool" where
  "strictEq JUndefined JUndefined = True"
| "strictEq JNull JNull = True"
| "strictEq (JBool a) (JBool b) = (a = b)"
| "strictEq (JNum a) (JNum b) = (a = b)"
| "strictEq (JStr a) (JStr b) = (a = b)"
| "strictEq _ _ = False"

section \<open>Shared state\<close>

record WaitingUser =
  socketId :: string
  preferences :: jsval
  isVideoChat :: bool

record state =
  waitingUsers :: "WaitingUser list"
  chatPairs :: "string \<rightharpoonup> string"
  reportedUsers :: "string set"
  videoChatPairs :: "string \<rightharpoonup> string"

definition initialState :: state where
  "initialState =
     \<lparr>waitingUsers = [], chatPairs = Map.empty, reportedUsers = {}, videoChatPairs = Map.empty\<rparr>"

section \<open>Matchmaking\<close>

definition findCommonTags :: "jsval list \<Rightarrow> jsval list \<Rightarrow> jsval list" where
  "findCommonTags user1Tags user2Tags =
     filter (\<lambda>tag. list_ex (\<lambda>t. strictEq t tag) user2Tags) user1Tags"

definition validatePreferences :: "jsval \<Rightarrow> bool" where
  "validatePreferences prefs =
     (truthy prefs \<and>
      isArray (tags prefs) \<and>
      isString (language prefs) \<and>
      isString (ageGroup prefs) \<and>
      isBoolean (agreeToGuidelines prefs))"

text \<open>The object built by the \<^verbatim>\<open>map\<close> step of \<^verbatim>\<open>findBestMatch\<close>.\<close>

record Match =
  user :: WaitingUser
  commonTags :: "jsval list"
  ageGroupMatch :: bool

text \<open>The comparator handed to \<^verbatim>\<open>sort\<close>.\<close>

definition compareMatches :: "Match \<Rightarrow> Match \<Rightarrow> int" where
  "compareMatches a b =
     (if length (commonTags b) \<noteq> length (commonTags a)
      then int (length (commonTags b)) - int (length (commonTags a))
      else if ageGroupMatch b then 1 else -1)"

text \<open>
  \<^verbatim>\<open>Array.prototype.sort\<close> belongs to the JavaScript engine, and the comparator above is
  not a consistent one (it never answers 0), so the order of the result is up to the
  engine. The sort is therefore a parameter \<open>srt\<close> of the model; the theorems ask of it
  only that the result has the elements of the input.
\<close>

type_synonym sortfn = "(Match \<Rightarrow> Match \<Rightarrow> int) \<Rightarrow> Match list \<Rightarrow> Match list"

definition sortKeepsElements :: "sortfn \<Rightarrow> bool" where
  "sortKeepsElements srt = (\<forall>cmp xs. set (srt cmp xs) = set xs)"

text \<open>One such sort, a stable insertion sort, to run the model on concrete inputs.\<close>

fun insertBy :: "('a \<Rightarrow> 'a \<Rightarrow> int) \<Rightarrow> 'a \<Rightarrow> 'a list \<Rightarrow> 'a list" where
  "insertBy cmp x [] = [x]"
| "insertBy cmp x (y # ys) = (if cmp x y \<le> 0 then x # y # ys else y # insertBy cmp x ys)"

fun insertionSort :: "('a \<Rightarrow> 'a \<Rightarrow> int) \<Rightarrow> 'a list \<Rightarrow> 'a list" where
  "insertionSort cmp [] = []"
| "insertionSort cmp (x # xs) = insertBy cmp x (insertionSort cmp xs)"

definition isCandidate :: "WaitingUser \<Rightarrow> state \<Rightarrow> WaitingUser \<Rightarrow> bool" where
  "isCandidate usr s waitingUser =
     (socketId waitingUser \<noteq> socketId usr \<and>
      socketId waitingUser \<notin> reportedUsers s \<and>
      strictEq (language (preferences waitingUser)) (language (preferences usr)))"

definition toMatch :: "WaitingUser \<Rightarrow> WaitingUser \<Rightarrow> Match" where
  "toMatch usr waitingUser =
     \<lparr>user = waitingUser,
      commonTags = findCommonTags (elems (tags (preferences usr)))
                                  (elems (tags (preferences waitingUser))),
      ageGroupMatch = strictEq (ageGroup (preferences waitingUser)) (ageGroup (preferences usr))\<rparr>"

definition findBestMatch :: "sortfn \<Rightarrow> WaitingUser \<Rightarrow> state \<Rightarrow> WaitingUser option" where
  "findBestMatch srt usr s =
     (if waitingUsers s = [] then None
      else
        let matches =
              srt compareMatches
                (filter (\<lambda>m. length (commonTags m) > 0)
                   (map (toMatch usr)
                      (filter (isCandidate usr s) (waitingUsers s))))
        in case matches of [] \<Rightarrow> None | m # _ \<Rightarrow> Some (user m))"

section \<open>Event handlers\<close>

text \<open>
  What the server sends: \<^verbatim>\<open>socket.emit\<close> addresses the issuing session itself,
  \<^verbatim>\<open>io.to(id).emit\<close> the session \<open>id\<close>. An emission is the addressee with the event.
  Writes to the console are not part of the model.
\<close>

datatype outEvent =
    EmitError string
  | EmitWaiting
  | EmitChatFound "jsval list" bool string
  | EmitChatEnded
  | EmitMessage string
  | EmitMessageModerated string string string
  | EmitOffer jsval string
  | EmitAnswer jsval string
  | EmitIceCandidate jsval string
  | EmitFindChat jsval bool

type_synonym emission = "string \<times> outEvent"

text \<open>What a session can send to the server; \<open>Disconnect\<close> is the closing of its channel.\<close>

datatype event =
    FindChat jsval bool
  | Offer string jsval
  | Answer string jsval
  | IceCandidate string jsval
  | Next
  | Message string
  | Report string
  | Disconnect

text \<open>
  \<^verbatim>\<open>findIndex\<close> followed by \<^verbatim>\<open>splice(index, 1)\<close>: the first entry that satisfies the
  test is removed, if there is one.
\<close>

fun removeFirst :: "('a \<Rightarrow> bool) \<Rightarrow> 'a list \<Rightarrow> 'a list" where
  "removeFirst P [] = []"
| "removeFirst P (x # xs) = (if P x then xs else x # removeFirst P xs)"

text \<open>
  The result of \<^verbatim>\<open>Map.get\<close> is a string or \<^verbatim>\<open>undefined\<close>; it is truthy when it is a
  string that is not empty. \<open>orElse a b\<close> is \<^verbatim>\<open>a || b\<close>.
\<close>

definition isTruthy :: "string option \<Rightarrow> bool" where
  "isTruthy v = (case v of None \<Rightarrow> False | Some p \<Rightarrow> p \<noteq> [])"

definition orElse :: "string option \<Rightarrow> string option \<Rightarrow> string option" where
  "orElse a b = (if isTruthy a then a else b)"

definition onFindChat :: "sortfn \<Rightarrow> string \<Rightarrow> jsval \<Rightarrow> bool \<Rightarrow> state \<Rightarrow> emission list \<times> state" where
  "onFindChat srt sid prefs video s =
     (if \<not> validatePreferences prefs
      then ([(sid, EmitError ''Invalid preferences format'')], s)
      else
        let s1 = s\<lparr>waitingUsers := removeFirst (\<lambda>u. socketId u = sid) (waitingUsers s)\<rparr>;
            usr = \<lparr>socketId = sid, preferences = prefs, isVideoChat = video\<rparr>
        in case findBestMatch srt usr s1 of
             Some match \<Rightarrow>
               let s2 = s1\<lparr>waitingUsers :=
                            removeFirst (\<lambda>u. socketId u = socketId match) (waitingUsers s1)\<rparr>;
                   s3 = (if video
                         then s2\<lparr>videoChatPairs :=
                                   (videoChatPairs s2)(sid \<mapsto> socketId match, socketId match \<mapsto> sid)\<rparr>
                         else s2\<lparr>chatPairs :=
                                   (chatPairs s2)(sid \<mapsto> socketId match, socketId match \<mapsto> sid)\<rparr>);
                   common = findCommonTags (elems (tags (preferences usr)))
                                           (elems (tags (preferences match)))
               in ([(sid, EmitChatFound common video (socketId match)),
                    (socketId match, EmitChatFound common video sid)], s3)
           | None \<Rightarrow>
               ([(sid, EmitWaiting)], s1\<lparr>waitingUsers := waitingUsers s1 @ [usr]\<rparr>))"

definition onOffer :: "string \<Rightarrow> string \<Rightarrow> jsval \<Rightarrow> state \<Rightarrow> emission list \<times> state" where
  "onOffer sid target offer s =
     (let partnerId = videoChatPairs s sid in
      if partnerId = Some target then ([(target, EmitOffer offer sid)], s) else ([], s))"

definition onAnswer :: "string \<Rightarrow> string \<Rightarrow> jsval \<Rightarrow> state \<Rightarrow> emission list \<times> state" where
  "onAnswer sid target answer s =
     (let partnerId = videoChatPairs s sid in
      if partnerId = Some target then ([(target, EmitAnswer answer sid)], s) else ([], s))"

definition onIceCandidate :: "string \<Rightarrow> string \<Rightarrow> jsval \<Rightarrow> state \<Rightarrow> emission list \<times> state" where
  "onIceCandidate sid target candidate s =
     (let partnerId = videoChatPairs s sid in
      if partnerId = Some target then ([(target, EmitIceCandidate candidate sid)], s) else ([], s))"

text \<open>The four \<^verbatim>\<open>delete\<close> calls that end a chat.\<close>

definition deletePairs :: "string \<Rightarrow> string \<Rightarrow> state \<Rightarrow> state" where
  "deletePairs sid partnerId s =
     s\<lparr>chatPairs := (chatPairs s)(sid := None, partnerId := None),
       videoChatPairs := (videoChatPairs s)(sid := None, partnerId := None)\<rparr>"

definition onNext :: "string \<Rightarrow> state \<Rightarrow> emission list \<times> state" where
  "onNext sid s =
     (let partnerId = orElse (chatPairs s sid) (videoChatPairs s sid);
          (out1, s1) = (case partnerId of
                          Some p \<Rightarrow> if p \<noteq> [] then ([(p, EmitChatEnded)], deletePairs sid p s)
                                    else ([], s)
                        | None \<Rightarrow> ([], s));
          out2 = (case find (\<lambda>u. socketId u = sid) (waitingUsers s1) of
                    Some u \<Rightarrow> [(sid, EmitFindChat (preferences u) (isVideoChat u))]
                  | None \<Rightarrow> [])
      in (out1 @ out2, s1))"

definition onMessage :: "string \<Rightarrow> string \<Rightarrow> state \<Rightarrow> emission list \<times> state" where
  "onMessage sid message s =
     (case chatPairs s sid of
        Some partnerId \<Rightarrow>
          if partnerId \<noteq> [] then
            let filteredMessage = filterMessage message in
            ((if filteredMessage \<noteq> message
              then [(sid, EmitMessageModerated message filteredMessage
                            ''Message contained inappropriate language'')]
              else [])
             @ [(partnerId, EmitMessage filteredMessage)], s)
          else ([], s)
      | None \<Rightarrow> ([], s))"

definition onReport :: "string \<Rightarrow> string \<Rightarrow> state \<Rightarrow> emission list \<times> state" where
  "onReport sid reason s =
     (let partnerId = orElse (chatPairs s sid) (videoChatPairs s sid) in
      case partnerId of
        Some p \<Rightarrow>
          if p \<noteq> [] then
            ([(p, EmitChatEnded)],
             deletePairs sid p (s\<lparr>reportedUsers := insert p (reportedUsers s)\<rparr>))
          else ([], s)
      | None \<Rightarrow> ([], s))"

definition onDisconnect :: "string \<Rightarrow> state \<Rightarrow> emission list \<times> state" where
  "onDisconnect sid s =
     (let partnerId = orElse (chatPairs s sid) (videoChatPairs s sid);
          (out1, s1) = (case partnerId of
                          Some p \<Rightarrow> if p \<noteq> [] then ([(p, EmitChatEnded)], deletePairs sid p s)
                                    else ([], s)
                        | None \<Rightarrow> ([], s));
          s2 = s1\<lparr>waitingUsers := removeFirst (\<lambda>u. socketId u = sid) (waitingUsers s1)\<rparr>
      in (out1, s2\<lparr>reportedUsers := reportedUsers s2 - {sid}\<rparr>))"

text \<open>The dispatch of \<^verbatim>\<open>io.on('connection', ...)\<close>: one handler per event of a session.\<close>

fun handle :: "sortfn \<Rightarrow> string \<Rightarrow> event \<Rightarrow> state \<Rightarrow> emission list \<times> state" where
  "handle srt sid (FindChat prefs video) s = onFindChat srt sid prefs video s"
| "handle srt sid (Offer target offer) s = onOffer sid target offer s"
| "handle srt sid (Answer target answer) s = onAnswer sid target answer s"
| "handle srt sid (IceCandidate target candidate) s = onIceCandidate sid target candidate s"
| "handle srt sid Next s = onNext sid s"
| "handle srt sid (Message message) s = onMessage sid message s"
| "handle srt sid (Report reason) s = onReport sid reason s"
| "handle srt sid Disconnect s = onDisconnect sid s"

text \<open>The server processes events one at a time; a run is a list of (session, event).\<close>

fun run :: "sortfn \<Rightarrow> state \<Rightarrow> (string \<times> event) list \<Rightarrow> state" where
  "run srt s [] = s"
| "run srt s ((sid, e) # evs) = run srt (snd (handle srt sid e s)) evs"

text \<open>
  A session is paired when it has an entry in one of the two pairing tables. A run is
  \<open>findChatWhenUnpaired\<close> when every \<open>FindChat\<close> in it comes from a session that is not
  paired at that moment.
\<close>

definition paired :: "state \<Rightarrow> string \<Rightarrow> bool" where
  "paired s sid = (chatPairs s sid \<noteq> None \<or> videoChatPairs s sid \<noteq> None)"

fun isFindChat :: "event \<Rightarrow> bool" where
  "isFindChat (FindChat prefs video) = True"
| "isFindChat _ = False"

fun findChatWhenUnpaired :: "sortfn \<Rightarrow> state \<Rightarrow> (string \<times> event) list \<Rightarrow> bool" where
  "findChatWhenUnpaired srt s [] = True"
| "findChatWhenUnpaired srt s ((sid, e) # evs) =
     ((isFindChat e \<longrightarrow> \<not> paired s sid) \<and>
      findChatWhenUnpaired srt (snd (handle srt sid e s)) evs)"

section \<open>Notions used by the properties\<close>

text \<open>
  A pattern that the scan of \<open>replaceAll\<close> treats as a literal word: it is not empty and
  none of its characters is matched by a star.
\<close>

definition literalWord :: "string \<Rightarrow> bool" where
  "literalWord w = (w \<noteq> [] \<and> list_all (\<lambda>a. canonicalize a \<noteq> canonicalize CHR ''*'') w)"

text \<open>A pairing table is symmetric when every entry has its mirror image.\<close>

definition symmetric :: "(string \<rightharpoonup> string) \<Rightarrow> bool" where
  "symmetric m = (\<forall>a b. m a = Some b \<longrightarrow> m b = Some a)"

text \<open>
  The invariant of the shared state: both tables are symmetric, no session has an entry
  in both, no waiting session is paired, and no session waits twice.
\<close>

definition inv :: "state \<Rightarrow> bool" where
  "inv s =
     (symmetric (chatPairs s) \<and> symmetric (videoChatPairs s) \<and>
      (\<forall>a. chatPairs s a = None \<or> videoChatPairs s a = None) \<and>
      (\<forall>u \<in> set (waitingUsers s). \<not> paired s (socketId u)) \<and>
      distinct (map socketId (waitingUsers s)))"

text \<open>No identifier stored in the pairing tables or the waiting list is the empty string.\<close>

definition idsNonEmpty :: "state \<Rightarrow> bool" where
  "idsNonEmpty s =
     ((\<forall>a p. chatPairs s a = Some p \<longrightarrow> p \<noteq> []) \<and>
      (\<forall>a p. videoChatPairs s a = Some p \<longrightarrow> p \<noteq> []) \<and>
      (\<forall>u \<in> set (waitingUsers s). socketId u \<noteq> []))"

text \<open>Concrete inputs: a well-formed preferences object with the given tags.\<close>

definition examplePreferences :: "string list \<Rightarrow> jsval" where
  "examplePreferences ts =
     JObj [(''tags'', JArr (map JStr ts)),
           (''language'', JStr ''English''),
           (''ageGroup'', JStr ''18-24''),
           (''agreeToGuidelines'', JBool True)]"

text \<open>The state in which the sessions A and B are paired in text mode and nobody waits.\<close>

definition pairedAB :: state where
  "pairedAB =
     \<lparr>waitingUsers = [],
      chatPairs = [''A'' \<mapsto> ''B'', ''B'' \<mapsto> ''A''],
      reportedUsers = {},
      videoChatPairs = Map.empty\<rparr>"

section \<open>Moderation: what the rewriting leaves behind\<close>

lemma literalWord_BANNED_WORDS: "list_all literalWord BANNED_WORDS"
  by code_simp

lemma literalWord_no_star: "literalWord v \<Longrightarrow> \<not> matchesAt v (CHR ''*'' # s)"
  by (cases v) (auto simp: literalWord_def)

text \<open>A match at the start of the rewritten text was a match at the start of the text.\<close>

lemma matchesAt_replaceAll:
  "list_all (\<lambda>a. canonicalize a \<noteq> canonicalize CHR ''*'') v \<Longrightarrow>
   matchesAt v (replaceAll w s) \<Longrightarrow> matchesAt v s"
proof (induction w s arbitrary: v rule: replaceAll.induct)
  case (1 w)
  then show ?case by simp
next
  case (2 w c cs)
  show ?case
  proof (cases v)
    case Nil
    then show ?thesis by simp
  next
    case (Cons a v')
    show ?thesis
    proof (cases "matchesAt w (c # cs)")
      case True
      with "2.prems" Cons show ?thesis by simp
    next
      case False
      with "2.prems" Cons "2.IH"(2)[of v'] show ?thesis by simp
    qed
  qed
qed

lemma occurs_drop: "occurs v (drop n s) \<Longrightarrow> occurs v s"
proof (induction s arbitrary: n)
  case Nil
  then show ?case by simp
next
  case (Cons c cs)
  then show ?case by (cases n) auto
qed

text \<open>Replacing one word creates no occurrence of any literal word.\<close>

lemma occurs_replaceAll:
  assumes "literalWord v"
  shows "occurs v (replaceAll w s) \<Longrightarrow> occurs v s"
proof (induction w s rule: replaceAll.induct)
  case (1 w)
  then show ?case by simp
next
  case (2 w c cs)
  show ?case
  proof (cases "matchesAt w (c # cs)")
    case True
    with "2.prems" assms have "occurs v (replaceAll w (drop (length w - 1) cs))"
      by (simp add: literalWord_no_star)
    with True "2.IH"(1) have "occurs v (drop (length w - 1) cs)" by simp
    then show ?thesis by (simp add: occurs_drop)
  next
    case False
    with "2.prems" have "matchesAt v (replaceAll w (c # cs)) \<or> occurs v (replaceAll w cs)"
      by simp
    then show ?thesis
    proof
      assume "matchesAt v (replaceAll w (c # cs))"
      with assms have "matchesAt v (c # cs)"
        using matchesAt_replaceAll literalWord_def by blast
      then show ?thesis by simp
    next
      assume "occurs v (replaceAll w cs)"
      with False "2.IH"(2) show ?thesis by simp
    qed
  qed
qed

text \<open>After its replacement a word occurs nowhere.\<close>

lemma not_occurs_replaceAll_self:
  "literalWord w \<Longrightarrow> \<not> occurs w (replaceAll w s)"
proof (induction w s rule: replaceAll.induct)
  case (1 w)
  then show ?case by (cases w) (auto simp: literalWord_def)
next
  case (2 w c cs)
  show ?case
  proof (cases "matchesAt w (c # cs)")
    case True
    with "2.IH"(1) "2.prems" show ?thesis by (simp add: literalWord_no_star)
  next
    case False
    have "\<not> matchesAt w (replaceAll w (c # cs))"
      using False matchesAt_replaceAll "2.prems" literalWord_def by blast
    with False "2.IH"(2) "2.prems" show ?thesis by simp
  qed
qed

lemma replaceAll_id: "\<not> occurs w s \<Longrightarrow> replaceAll w s = s"
  by (induction w s rule: replaceAll.induct) auto

lemma replaceEach_id: "list_all (\<lambda>w. \<not> occurs w s) ws \<Longrightarrow> replaceEach ws s = s"
  by (induction ws) (auto simp: replaceAll_id)

lemma occurs_replaceEach:
  "literalWord v \<Longrightarrow> occurs v (replaceEach ws s) \<Longrightarrow> occurs v s"
  by (induction ws arbitrary: s) (auto dest: occurs_replaceAll)

lemma not_occurs_replaceEach:
  "list_all literalWord ws \<Longrightarrow> list_all (\<lambda>w. \<not> occurs w (replaceEach ws s)) ws"
proof (induction ws arbitrary: s)
  case Nil
  then show ?case by simp
next
  case (Cons w ws)
  have "\<not> occurs w (replaceEach ws (replaceAll w s))"
  proof -
    from Cons.prems have "literalWord w" by simp
    then show ?thesis
      using occurs_replaceEach not_occurs_replaceAll_self by blast
  qed
  with Cons show ?case by simp
qed

lemma replaceEach_idem:
  "replaceEach BANNED_WORDS (replaceEach BANNED_WORDS m) = replaceEach BANNED_WORDS m"
  by (rule replaceEach_id) (rule not_occurs_replaceEach [OF literalWord_BANNED_WORDS])

subsection \<open>The detector sees every literal occurrence\<close>

text \<open>
  The detector works on the message with everything but \<^verbatim>\<open>[a-z0-9]\<close> removed, the
  rewriting on the message as it is. A literal occurrence of a banned word is always
  seen by the detector, so the guard of \<open>filterMessage\<close> never holds a replacement back.
\<close>

lemma translate_notin: "c \<notin> set from \<Longrightarrow> translate from to c = c"
  by (induction "from" to c rule: translate.induct) auto

lemma canonicalize_notin: "c \<notin> set asciiLower \<Longrightarrow> canonicalize c = c"
  by (simp add: canonicalize_def translate_notin)

lemma toLowerCase_canonicalize_alnum:
  "list_all (\<lambda>p. toLowerCase_char (canonicalize p) = p) (asciiLower @ asciiDigits)"
  by code_simp

lemma toLowerCase_alnum:
  "list_all (\<lambda>p. toLowerCase_char p = p) (asciiLower @ asciiDigits)"
  by code_simp

lemma canonicalize_toLowerCase:
  assumes "isAlnumLower p" and "canonicalize c = canonicalize p"
  shows "toLowerCase_char c = p"
proof -
  from assms(1) have p: "p \<in> set (asciiLower @ asciiDigits)"
    by (simp add: isAlnumLower_def)
  with toLowerCase_canonicalize_alnum have inv_p: "toLowerCase_char (canonicalize p) = p"
    unfolding list_all_iff by blast
  show ?thesis
  proof (cases "c \<in> set asciiLower")
    case True
    then have c: "c \<in> set (asciiLower @ asciiDigits)" by simp
    with toLowerCase_canonicalize_alnum have inv_c: "toLowerCase_char (canonicalize c) = c"
      unfolding list_all_iff by blast
    have "c = p"
      using inv_c inv_p assms(2) by metis
    moreover from p toLowerCase_alnum have "toLowerCase_char p = p"
      unfolding list_all_iff by blast
    ultimately show ?thesis by simp
  next
    case False
    then have "canonicalize c = c" by (rule canonicalize_notin)
    with assms(2) inv_p show ?thesis by metis
  qed
qed

lemma matchesAt_startsWith:
  "list_all isAlnumLower w \<Longrightarrow> matchesAt w s \<Longrightarrow>
   startsWith (stripNonAlnum (toLowerCase s)) w"
proof (induction w s rule: matchesAt.induct)
  case (1 s)
  then show ?case by simp
next
  case (2 p ps)
  then show ?case by simp
next
  case (3 p ps c cs)
  then have "toLowerCase_char c = p" "isAlnumLower p"
    by (simp_all add: canonicalize_toLowerCase)
  with 3 show ?case by (simp add: stripNonAlnum_def toLowerCase_def)
qed

lemma startsWith_includes: "startsWith xs w \<Longrightarrow> includes_str xs w"
  by (cases xs) simp_all

lemma includes_Cons: "includes_str xs w \<Longrightarrow> includes_str (x # xs) w"
  by simp

lemma occurs_includes:
  "list_all isAlnumLower w \<Longrightarrow> occurs w s \<Longrightarrow>
   includes_str (stripNonAlnum (toLowerCase s)) w"
proof (induction s)
  case Nil
  then show ?case using matchesAt_startsWith startsWith_includes by fastforce
next
  case (Cons c cs)
  from Cons.prems(2) have "matchesAt w (c # cs) \<or> occurs w cs" by simp
  then show ?case
  proof
    assume "matchesAt w (c # cs)"
    with Cons.prems(1) show ?thesis
      by (intro startsWith_includes matchesAt_startsWith)
  next
    assume "occurs w cs"
    with Cons have "includes_str (stripNonAlnum (toLowerCase cs)) w" by simp
    then show ?thesis by (simp add: stripNonAlnum_def toLowerCase_def)
  qed
qed

lemma BANNED_WORDS_alnum: "list_all (list_all isAlnumLower) BANNED_WORDS"
  by code_simp

lemma BANNED_WORDS_normalized:
  "list_all (\<lambda>w. stripNonAlnum (toLowerCase w) = w) BANNED_WORDS"
  by code_simp

lemma containsBannedWords_occurs:
  assumes "w \<in> set BANNED_WORDS" and "occurs w m"
  shows "containsBannedWords m"
proof -
  from assms(1) BANNED_WORDS_alnum have "list_all isAlnumLower w"
    unfolding list_all_iff [of "list_all isAlnumLower"] by blast
  with assms(2) have "includes_str (stripNonAlnum (toLowerCase m)) w"
    by (intro occurs_includes)
  moreover from assms(1) BANNED_WORDS_normalized have "stripNonAlnum (toLowerCase w) = w"
    unfolding list_all_iff by blast
  ultimately have "includes_str (stripNonAlnum (toLowerCase m)) (stripNonAlnum (toLowerCase w))"
    by simp
  with assms(1) show ?thesis
    unfolding containsBannedWords_def Let_def list_ex_iff by blast
qed

lemma filterMessage_replaceEach: "filterMessage m = replaceEach BANNED_WORDS m"
proof (cases "containsBannedWords m")
  case True
  then show ?thesis by (simp add: filterMessage_def)
next
  case False
  then have "list_all (\<lambda>w. \<not> occurs w m) BANNED_WORDS"
    using containsBannedWords_occurs unfolding list_all_iff by blast
  then have "replaceEach BANNED_WORDS m = m" by (rule replaceEach_id)
  with False show ?thesis by (simp add: filterMessage_def)
qed

section \<open>Matchmaking and the invariant of the pairing tables\<close>

lemma set_removeFirst: "set (removeFirst P xs) \<subseteq> set xs"
  by (induction xs) auto

lemma distinct_removeFirst:
  "distinct (map f xs) \<Longrightarrow> distinct (map f (removeFirst P xs))"
proof (induction xs)
  case Nil
  then show ?case by simp
next
  case (Cons x xs)
  then show ?case using set_removeFirst [of P xs] by auto
qed

lemma removeFirst_gone:
  "distinct (map f xs) \<Longrightarrow> u \<in> set (removeFirst (\<lambda>x. f x = a) xs) \<Longrightarrow> f u \<noteq> a"
proof (induction xs)
  case Nil
  then show ?case by simp
next
  case (Cons x xs)
  then show ?case by (force split: if_splits)
qed

lemma findBestMatch_Some:
  assumes "sortKeepsElements srt" and "findBestMatch srt usr s = Some m"
  shows "m \<in> set (waitingUsers s) \<and> isCandidate usr s m \<and>
         findCommonTags (elems (tags (preferences usr))) (elems (tags (preferences m))) \<noteq> []"
proof -
  let ?L = "filter (\<lambda>m. length (commonTags m) > 0)
              (map (toMatch usr) (filter (isCandidate usr s) (waitingUsers s)))"
  from assms(2) obtain x xs where sorted: "srt compareMatches ?L = x # xs" and m: "m = user x"
    by (auto simp: findBestMatch_def Let_def split: if_splits list.splits)
  from assms(1) have "set (srt compareMatches ?L) = set ?L"
    by (simp add: sortKeepsElements_def)
  then have "x \<in> set ?L" unfolding sorted by (metis list.set_intros(1))
  then obtain w where "w \<in> set (waitingUsers s)" "isCandidate usr s w" "x = toMatch usr w"
    "commonTags x \<noteq> []" by auto
  with m show ?thesis by (simp add: toMatch_def)
qed

lemma symmetricD: "symmetric m \<Longrightarrow> m a = Some b \<Longrightarrow> m b = Some a"
  unfolding symmetric_def by blast

lemma symmetric_delete:
  assumes "symmetric m" and "m a = Some p"
  shows "symmetric (m(a := None, p := None))"
  unfolding symmetric_def
proof (intro allI impI)
  fix x y
  assume h: "(m(a := None, p := None)) x = Some y"
  have x: "x \<noteq> a \<and> x \<noteq> p \<and> m x = Some y"
  proof (cases "x = p")
    case True with h show ?thesis by simp
  next
    case False
    with h show ?thesis by (cases "x = a") simp_all
  qed
  then have y: "m y = Some x" using symmetricD [OF assms(1)] by blast
  have "m p = Some a" using symmetricD [OF assms] .
  with y x assms(2) have "y \<noteq> a" "y \<noteq> p" by auto
  with y show "(m(a := None, p := None)) y = Some x" by simp
qed

lemma symmetric_delete_absent:
  assumes "symmetric m" and "m a = None" and "m p = None"
  shows "symmetric (m(a := None, p := None))"
proof -
  from assms(2,3) have "m(a := None, p := None) = m" by (simp add: fun_eq_iff)
  with assms(1) show ?thesis by simp
qed

lemma symmetric_add:
  assumes "symmetric m" and "m a = None" and "m b = None"
  shows "symmetric (m(a \<mapsto> b, b \<mapsto> a))"
  unfolding symmetric_def
proof (intro allI impI)
  fix x y
  assume h: "(m(a \<mapsto> b, b \<mapsto> a)) x = Some y"
  show "(m(a \<mapsto> b, b \<mapsto> a)) y = Some x"
  proof (cases "x = b")
    case True
    with h show ?thesis by simp
  next
    case xb: False
    show ?thesis
    proof (cases "x = a")
      case True
      with h xb show ?thesis by simp
    next
      case False
      with xb h have mx: "m x = Some y" by simp
      then have my: "m y = Some x" using symmetricD [OF assms(1)] by blast
      with assms(2,3) have "y \<noteq> a" "y \<noteq> b" by auto
      with my show ?thesis by simp
    qed
  qed
qed

lemma inv_initialState: "inv initialState"
  by (simp add: inv_def initialState_def symmetric_def)

lemma orElse_Some:
  "orElse (chatPairs s a) (videoChatPairs s a) = Some p \<Longrightarrow>
   chatPairs s a = Some p \<or> videoChatPairs s a = Some p"
  by (auto simp: orElse_def split: if_splits)

lemma paired_deletePairs: "paired (deletePairs a p s) x \<Longrightarrow> paired s x"
  by (auto simp: paired_def deletePairs_def split: if_splits)

lemma deletePairs_simps:
  "chatPairs (deletePairs a p s) = (chatPairs s)(a := None, p := None)"
  "videoChatPairs (deletePairs a p s) = (videoChatPairs s)(a := None, p := None)"
  "waitingUsers (deletePairs a p s) = waitingUsers s"
  "reportedUsers (deletePairs a p s) = reportedUsers s"
  by (simp_all add: deletePairs_def)

lemma inv_deletePairs:
  assumes "inv s" and "chatPairs s a = Some p \<or> videoChatPairs s a = Some p"
  shows "inv (deletePairs a p s)"
proof -
  from assms(1) have sc: "symmetric (chatPairs s)" and sv: "symmetric (videoChatPairs s)"
    and dj: "\<And>x. chatPairs s x = None \<or> videoChatPairs s x = None"
    and wu: "\<forall>u \<in> set (waitingUsers s). \<not> paired s (socketId u)"
    and di: "distinct (map socketId (waitingUsers s))"
    by (auto simp: inv_def)
  have dj': "\<forall>x. chatPairs (deletePairs a p s) x = None \<or> videoChatPairs (deletePairs a p s) x = None"
    using dj by (simp add: deletePairs_simps)
  have wu': "\<forall>u \<in> set (waitingUsers (deletePairs a p s)). \<not> paired (deletePairs a p s) (socketId u)"
    using wu paired_deletePairs by (auto simp: deletePairs_simps)
  have di': "distinct (map socketId (waitingUsers (deletePairs a p s)))"
    using di by (simp add: deletePairs_simps)
  have "symmetric (chatPairs (deletePairs a p s)) \<and> symmetric (videoChatPairs (deletePairs a p s))"
    using assms(2)
  proof
    assume c: "chatPairs s a = Some p"
    with sc have "chatPairs s p = Some a" by (rule symmetricD)
    with c dj [of a] dj [of p] have "videoChatPairs s a = None" "videoChatPairs s p = None"
      by auto
    with c sc sv show ?thesis
      by (simp add: deletePairs_simps symmetric_delete symmetric_delete_absent)
  next
    assume c: "videoChatPairs s a = Some p"
    with sv have "videoChatPairs s p = Some a" by (rule symmetricD)
    with c dj [of a] dj [of p] have "chatPairs s a = None" "chatPairs s p = None"
      by auto
    with c sc sv show ?thesis
      by (simp add: deletePairs_simps symmetric_delete symmetric_delete_absent)
  qed
  with dj' wu' di' show ?thesis unfolding inv_def by blast
qed

lemma inv_waitingUsers_removeFirst:
  "inv s \<Longrightarrow> inv (s\<lparr>waitingUsers := removeFirst P (waitingUsers s)\<rparr>)"
  using set_removeFirst [of P "waitingUsers s"]
  by (auto simp: inv_def paired_def distinct_removeFirst)

lemma inv_reportedUsers: "inv (s\<lparr>reportedUsers := R\<rparr>) = inv s"
  by (simp add: inv_def paired_def)

lemma inv_onNext: "inv s \<Longrightarrow> inv (snd (onNext sid s))"
  by (auto simp: onNext_def Let_def inv_deletePairs split: option.splits dest!: orElse_Some)

lemma inv_onReport: "inv s \<Longrightarrow> inv (snd (onReport sid reason s))"
  by (auto simp: onReport_def Let_def inv_deletePairs inv_reportedUsers
           split: option.splits dest!: orElse_Some)

lemma inv_onDisconnect: "inv s \<Longrightarrow> inv (snd (onDisconnect sid s))"
  by (auto simp: onDisconnect_def Let_def inv_deletePairs inv_reportedUsers
                 inv_waitingUsers_removeFirst
           split: option.splits dest!: orElse_Some)

lemma inv_onMessage: "inv s \<Longrightarrow> inv (snd (onMessage sid message s))"
  by (simp add: onMessage_def Let_def split: option.splits)

lemma inv_relay:
  "inv s \<Longrightarrow> inv (snd (onOffer sid t x s))"
  "inv s \<Longrightarrow> inv (snd (onAnswer sid t x s))"
  "inv s \<Longrightarrow> inv (snd (onIceCandidate sid t x s))"
  by (simp_all add: onOffer_def onAnswer_def onIceCandidate_def Let_def)


lemma inv_enqueue:
  assumes "inv s" and "\<not> paired s sid" and "sid \<notin> socketId ` set (waitingUsers s)"
    and "socketId usr = sid"
  shows "inv (s\<lparr>waitingUsers := waitingUsers s @ [usr]\<rparr>)"
  using assms by (auto simp: inv_def paired_def)

lemma inv_addPair:
  assumes "inv s" and "\<not> paired s a" and "\<not> paired s b"
    and "\<forall>u \<in> set (waitingUsers s). socketId u \<noteq> a \<and> socketId u \<noteq> b"
  shows "inv (s\<lparr>chatPairs := (chatPairs s)(a \<mapsto> b, b \<mapsto> a)\<rparr>)"
    and "inv (s\<lparr>videoChatPairs := (videoChatPairs s)(a \<mapsto> b, b \<mapsto> a)\<rparr>)"
proof -
  from assms(1) have sc: "symmetric (chatPairs s)" and sv: "symmetric (videoChatPairs s)"
    and dj: "\<forall>x. chatPairs s x = None \<or> videoChatPairs s x = None"
    and wu: "\<forall>u \<in> set (waitingUsers s). \<not> paired s (socketId u)"
    and di: "distinct (map socketId (waitingUsers s))"
    by (auto simp: inv_def)
  from assms(2,3) have none: "chatPairs s a = None" "chatPairs s b = None"
    "videoChatPairs s a = None" "videoChatPairs s b = None"
    by (auto simp: paired_def)
  have "symmetric ((chatPairs s)(a \<mapsto> b, b \<mapsto> a))"
    using sc none by (simp add: symmetric_add)
  moreover have "\<forall>x. ((chatPairs s)(a \<mapsto> b, b \<mapsto> a)) x = None \<or> videoChatPairs s x = None"
    using dj none by simp
  moreover have "\<forall>u \<in> set (waitingUsers s).
      \<not> paired (s\<lparr>chatPairs := (chatPairs s)(a \<mapsto> b, b \<mapsto> a)\<rparr>) (socketId u)"
    using wu assms(4) by (simp add: paired_def)
  ultimately show "inv (s\<lparr>chatPairs := (chatPairs s)(a \<mapsto> b, b \<mapsto> a)\<rparr>)"
    using sv di by (simp add: inv_def)
  have "symmetric ((videoChatPairs s)(a \<mapsto> b, b \<mapsto> a))"
    using sv none by (simp add: symmetric_add)
  moreover have "\<forall>x. chatPairs s x = None \<or> ((videoChatPairs s)(a \<mapsto> b, b \<mapsto> a)) x = None"
    using dj none by simp
  moreover have "\<forall>u \<in> set (waitingUsers s).
      \<not> paired (s\<lparr>videoChatPairs := (videoChatPairs s)(a \<mapsto> b, b \<mapsto> a)\<rparr>) (socketId u)"
    using wu assms(4) by (simp add: paired_def)
  ultimately show "inv (s\<lparr>videoChatPairs := (videoChatPairs s)(a \<mapsto> b, b \<mapsto> a)\<rparr>)"
    using sc di by (simp add: inv_def)
qed

lemma inv_onFindChat:
  assumes srt: "sortKeepsElements srt" and i: "inv s" and np: "\<not> paired s sid"
  shows "inv (snd (onFindChat srt sid prefs video s))"
proof (cases "validatePreferences prefs")
  case False
  with i show ?thesis by (simp add: onFindChat_def)
next
  case True
  define s1 where "s1 = s\<lparr>waitingUsers := removeFirst (\<lambda>u. socketId u = sid) (waitingUsers s)\<rparr>"
  define usr where "usr = \<lparr>socketId = sid, preferences = prefs, isVideoChat = video\<rparr>"
  have i1: "inv s1" unfolding s1_def using i by (rule inv_waitingUsers_removeFirst)
  have np1: "\<not> paired s1 sid" using np by (simp add: s1_def paired_def)
  from i have di: "distinct (map socketId (waitingUsers s))" by (simp add: inv_def)
  have gone: "\<forall>u \<in> set (waitingUsers s1). socketId u \<noteq> sid"
    using removeFirst_gone [OF di] by (auto simp: s1_def)
  show ?thesis
  proof (cases "findBestMatch srt usr s1")
    case None
    have "inv (s1\<lparr>waitingUsers := waitingUsers s1 @ [usr]\<rparr>)"
      using i1 np1 gone by (intro inv_enqueue) (auto simp: usr_def)
    with True None show ?thesis
      by (simp add: onFindChat_def Let_def s1_def [symmetric] usr_def [symmetric])
  next
    case (Some m)
    from findBestMatch_Some [OF srt Some]
    have min: "m \<in> set (waitingUsers s1)" and neq: "socketId m \<noteq> sid"
      by (auto simp: isCandidate_def usr_def)
    define s2 where
      "s2 = s1\<lparr>waitingUsers := removeFirst (\<lambda>u. socketId u = socketId m) (waitingUsers s1)\<rparr>"
    have i2: "inv s2" unfolding s2_def using i1 by (rule inv_waitingUsers_removeFirst)
    from i1 have di1: "distinct (map socketId (waitingUsers s1))" by (simp add: inv_def)
    from i1 min have "\<not> paired s1 (socketId m)" by (simp add: inv_def)
    then have npm: "\<not> paired s2 (socketId m)" by (simp add: s2_def paired_def)
    have npa: "\<not> paired s2 sid" using np1 by (simp add: s2_def paired_def)
    have "\<forall>u \<in> set (waitingUsers s2). socketId u \<noteq> socketId m"
      using removeFirst_gone [OF di1] by (auto simp: s2_def)
    moreover have "\<forall>u \<in> set (waitingUsers s2). socketId u \<noteq> sid"
      using gone set_removeFirst [of "\<lambda>u. socketId u = socketId m" "waitingUsers s1"]
      by (auto simp: s2_def)
    ultimately have w2: "\<forall>u \<in> set (waitingUsers s2). socketId u \<noteq> sid \<and> socketId u \<noteq> socketId m"
      by blast
    note ap = inv_addPair [OF i2 npa npm w2]
    from True Some ap show ?thesis
      by (simp add: onFindChat_def Let_def s1_def [symmetric] usr_def [symmetric]
                    s2_def [symmetric])
  qed
qed

lemma inv_handle:
  assumes "sortKeepsElements srt" and "inv s" and "isFindChat e \<longrightarrow> \<not> paired s sid"
  shows "inv (snd (handle srt sid e s))"
  using assms
  by (cases e) (simp_all add: inv_onFindChat inv_relay inv_onNext inv_onMessage inv_onReport
                              inv_onDisconnect)

lemma inv_run:
  "sortKeepsElements srt \<Longrightarrow> inv s \<Longrightarrow> findChatWhenUnpaired srt s evs \<Longrightarrow> inv (run srt s evs)"
proof (induction evs arbitrary: s)
  case Nil
  then show ?case by simp
next
  case (Cons ev evs)
  obtain sid e where ev: "ev = (sid, e)" by (cases ev)
  with Cons.prems have "inv (snd (handle srt sid e s))"
    by (intro inv_handle) auto
  with Cons ev show ?case by simp
qed


text \<open>
  Session identifiers are assigned by the transport and are never empty; then no
  identifier that the server stores is empty either.
\<close>

lemma idsNonEmpty_deletePairs: "idsNonEmpty s \<Longrightarrow> idsNonEmpty (deletePairs a p s)"
  by (simp add: idsNonEmpty_def deletePairs_simps)

lemma idsNonEmpty_removeFirst:
  "idsNonEmpty s \<Longrightarrow> idsNonEmpty (s\<lparr>waitingUsers := removeFirst P (waitingUsers s)\<rparr>)"
  using set_removeFirst [of P "waitingUsers s"] by (auto simp: idsNonEmpty_def)

lemma idsNonEmpty_reportedUsers: "idsNonEmpty (s\<lparr>reportedUsers := R\<rparr>) = idsNonEmpty s"
  by (simp add: idsNonEmpty_def)

lemma idsNonEmpty_onFindChat:
  assumes "sortKeepsElements srt" and "idsNonEmpty s" and "sid \<noteq> []"
  shows "idsNonEmpty (snd (onFindChat srt sid prefs video s))"
proof (cases "validatePreferences prefs")
  case False
  with assms(2) show ?thesis by (simp add: onFindChat_def)
next
  case True
  define s1 where "s1 = s\<lparr>waitingUsers := removeFirst (\<lambda>u. socketId u = sid) (waitingUsers s)\<rparr>"
  define usr where "usr = \<lparr>socketId = sid, preferences = prefs, isVideoChat = video\<rparr>"
  have i1: "idsNonEmpty s1" unfolding s1_def using assms(2) by (rule idsNonEmpty_removeFirst)
  show ?thesis
  proof (cases "findBestMatch srt usr s1")
    case None
    have "idsNonEmpty (s1\<lparr>waitingUsers := waitingUsers s1 @ [usr]\<rparr>)"
      using i1 assms(3) by (simp add: idsNonEmpty_def usr_def)
    with True None show ?thesis
      by (simp add: onFindChat_def Let_def s1_def [symmetric] usr_def [symmetric])
  next
    case (Some m)
    from findBestMatch_Some [OF assms(1) Some] i1 have m: "socketId m \<noteq> []"
      by (simp add: idsNonEmpty_def)
    define s2 where
      "s2 = s1\<lparr>waitingUsers := removeFirst (\<lambda>u. socketId u = socketId m) (waitingUsers s1)\<rparr>"
    have i2: "idsNonEmpty s2" unfolding s2_def using i1 by (rule idsNonEmpty_removeFirst)
    have "idsNonEmpty (s2\<lparr>chatPairs := (chatPairs s2)(sid \<mapsto> socketId m, socketId m \<mapsto> sid)\<rparr>)"
      "idsNonEmpty (s2\<lparr>videoChatPairs := (videoChatPairs s2)(sid \<mapsto> socketId m, socketId m \<mapsto> sid)\<rparr>)"
      using i2 m assms(3) by (simp_all add: idsNonEmpty_def)
    with True Some show ?thesis
      by (simp add: onFindChat_def Let_def s1_def [symmetric] usr_def [symmetric]
                    s2_def [symmetric])
  qed
qed

lemma idsNonEmpty_handle:
  assumes "sortKeepsElements srt" and "idsNonEmpty s" and "sid \<noteq> []"
  shows "idsNonEmpty (snd (handle srt sid e s))"
proof (cases e)
  case (FindChat prefs video)
  with assms show ?thesis by (simp add: idsNonEmpty_onFindChat)
next
  case Next
  with assms(2) show ?thesis
    by (simp add: onNext_def Let_def idsNonEmpty_deletePairs split: option.splits)
next
  case (Message m)
  with assms(2) show ?thesis by (simp add: onMessage_def Let_def split: option.splits)
next
  case (Report r)
  with assms(2) show ?thesis
    by (simp add: onReport_def Let_def idsNonEmpty_deletePairs idsNonEmpty_reportedUsers
             split: option.splits)
next
  case Disconnect
  with assms(2) show ?thesis
    by (simp add: onDisconnect_def Let_def idsNonEmpty_deletePairs idsNonEmpty_reportedUsers
                  idsNonEmpty_removeFirst split: option.splits)
qed (use assms(2) in \<open>simp_all add: onOffer_def onAnswer_def onIceCandidate_def\<close>)

lemma idsNonEmpty_run:
  "sortKeepsElements srt \<Longrightarrow> idsNonEmpty s \<Longrightarrow> list_all (\<lambda>(sid, e). sid \<noteq> []) evs \<Longrightarrow>
   idsNonEmpty (run srt s evs)"
proof (induction evs arbitrary: s)
  case Nil
  then show ?case by simp
next
  case (Cons ev evs)
  obtain sid e where ev: "ev = (sid, e)" by (cases ev)
  with Cons.prems have "idsNonEmpty (snd (handle srt sid e s))"
    by (intro idsNonEmpty_handle) auto
  with Cons ev show ?case by simp
qed

lemma partner_ids_nonempty:
  assumes "sortKeepsElements srt" and "list_all (\<lambda>(sid, e). sid \<noteq> []) evs"
  shows "chatPairs (run srt initialState evs) a = Some p \<Longrightarrow> p \<noteq> []"
    and "videoChatPairs (run srt initialState evs) a = Some p \<Longrightarrow> p \<noteq> []"
proof -
  have "idsNonEmpty initialState" by (simp add: idsNonEmpty_def initialState_def)
  with assms have "idsNonEmpty (run srt initialState evs)" by (intro idsNonEmpty_run)
  then show "chatPairs (run srt initialState evs) a = Some p \<Longrightarrow> p \<noteq> []"
    and "videoChatPairs (run srt initialState evs) a = Some p \<Longrightarrow> p \<noteq> []"
    unfolding idsNonEmpty_def by blast+
qed

section \<open>Signalling relay\<close>

text \<open>
  Claim C6 (relay authorization). An \<^verbatim>\<open>offer\<close>, \<^verbatim>\<open>answer\<close> or \<^verbatim>\<open>ice-candidate\<close> event
  from session \<open>a\<close> with target \<open>c\<close> is forwarded to \<open>c\<close>, with the payload and
  \<open>from = a\<close>, exactly when \<open>c\<close> is the entry of \<open>a\<close> in the video pairing table at that
  moment; otherwise nothing is sent to anyone. In both cases the state is unchanged.
\<close>

theorem relay_authorization:
  "handle srt a (Offer c payload) s =
     (if videoChatPairs s a = Some c then [(c, EmitOffer payload a)] else [], s) \<and>
   handle srt a (Answer c payload) s =
     (if videoChatPairs s a = Some c then [(c, EmitAnswer payload a)] else [], s) \<and>
   handle srt a (IceCandidate c payload) s =
     (if videoChatPairs s a = Some c then [(c, EmitIceCandidate payload a)] else [], s)"
  by (simp add: onOffer_def onAnswer_def onIceCandidate_def)

section \<open>Chat messages\<close>

text \<open>
  Claim C7 (message forwarding). When the sender \<open>a\<close> has the partner \<open>p\<close> in the text
  pairing table at the moment of sending (session identifiers are never empty), the
  partner receives exactly \<open>filterMessage text\<close>, whether or not the filter changed the
  text, and the sender receives a \<^verbatim>\<open>messageModerated\<close> event, ahead of that, exactly when
  the filter changed the text. When the sender has no entry in the text pairing table the
  event produces no output. The state is unchanged in both cases.
\<close>

theorem message_forwarding:
  "(chatPairs s a = Some p \<and> p \<noteq> [] \<longrightarrow>
      handle srt a (Message text) s =
        ((if filterMessage text \<noteq> text
          then [(a, EmitMessageModerated text (filterMessage text)
                      ''Message contained inappropriate language'')]
          else [])
         @ [(p, EmitMessage (filterMessage text))], s)) \<and>
   (chatPairs s a = None \<longrightarrow> handle srt a (Message text) s = ([], s))"
  by (simp add: onMessage_def Let_def)

theorem message_forwarding_witness:
  "chatPairs pairedAB ''A'' = Some ''B'' \<and> ''B'' \<noteq> [] \<and>
   handle insertionSort ''A'' (Message ''hello'') pairedAB =
     ((if filterMessage ''hello'' \<noteq> ''hello''
       then [(''A'', EmitMessageModerated ''hello'' (filterMessage ''hello'')
                   ''Message contained inappropriate language'')]
       else [])
      @ [(''B'', EmitMessage (filterMessage ''hello''))], pairedAB) \<and>
   chatPairs initialState ''A'' = None \<and>
   handle insertionSort ''A'' (Message ''hello'') initialState = ([], initialState)"
proof -
  have p: "chatPairs pairedAB ''A'' = Some ''B'' \<and> ''B'' \<noteq> []"
    by (simp add: pairedAB_def)
  have n: "chatPairs initialState ''A'' = None"
    by (simp add: initialState_def)
  from p n
    message_forwarding [of pairedAB "''A''" "''B''" insertionSort "''hello''"]
    message_forwarding [of initialState "''A''" "''B''" insertionSort "''hello''"]
  show ?thesis by blast
qed

text \<open>
  Claim C8 (moderation idempotence). A message in which \<open>containsBannedWords\<close> finds
  nothing, and likewise a message in which no banned word occurs literally, is returned
  unchanged by \<open>filterMessage\<close>, so that the handler's test
  \<^verbatim>\<open>filteredMessage !== message\<close> (the was-modified flag) is false; and filtering twice
  gives what filtering once gives, for every message.
\<close>

theorem moderation_idempotent:
  "(\<not> containsBannedWords m \<longrightarrow> filterMessage m = m) \<and>
   (list_all (\<lambda>w. \<not> occurs w m) BANNED_WORDS \<longrightarrow> filterMessage m = m) \<and>
   filterMessage (filterMessage m) = filterMessage m"
proof (intro conjI impI)
  assume "\<not> containsBannedWords m"
  then show "filterMessage m = m" by (simp add: filterMessage_def)
next
  assume "list_all (\<lambda>w. \<not> occurs w m) BANNED_WORDS"
  then show "filterMessage m = m" by (simp add: filterMessage_replaceEach replaceEach_id)
next
  show "filterMessage (filterMessage m) = filterMessage m"
    by (simp add: filterMessage_replaceEach replaceEach_idem)
qed

theorem moderation_idempotent_witness:
  "\<not> containsBannedWords ''hello'' \<and> filterMessage ''hello'' = ''hello'' \<and>
   filterMessage (filterMessage ''hello'') = filterMessage ''hello''"
proof -
  have "\<not> containsBannedWords ''hello''" by code_simp
  with moderation_idempotent [of "''hello''"] show ?thesis by blast
qed

section \<open>Malformed preferences\<close>

text \<open>
  Claim C9 (invalid preferences). A \<^verbatim>\<open>findChat\<close> whose preferences are malformed (a falsy
  value, tags that are not an array, a language or age group that is not a string, or an
  agreement that is not a boolean) sends one \<^verbatim>\<open>error\<close> event to the caller, nothing to
  anyone else, and leaves the waiting list, both pairing tables and the block list as
  they were.
\<close>

theorem invalid_preferences_rejected:
  assumes "\<not> truthy prefs \<or> \<not> isArray (tags prefs) \<or> \<not> isString (language prefs) \<or>
           \<not> isString (ageGroup prefs) \<or> \<not> isBoolean (agreeToGuidelines prefs)"
  shows "handle srt sid (FindChat prefs video) s =
           ([(sid, EmitError ''Invalid preferences format'')], s)"
  using assms by (auto simp: onFindChat_def validatePreferences_def)

theorem invalid_preferences_rejected_witness:
  "\<not> isArray (tags (JObj [(''tags'', JStr ''Art''), (''language'', JStr ''English''),
                           (''ageGroup'', JStr ''18-24''), (''agreeToGuidelines'', JBool True)])) \<and>
   handle insertionSort ''C''
     (FindChat (JObj [(''tags'', JStr ''Art''), (''language'', JStr ''English''),
                      (''ageGroup'', JStr ''18-24''), (''agreeToGuidelines'', JBool True)]) False)
     pairedAB
   = ([(''C'', EmitError ''Invalid preferences format'')], pairedAB)"
proof -
  have h: "\<not> isArray (tags (JObj [(''tags'', JStr ''Art''), (''language'', JStr ''English''),
                           (''ageGroup'', JStr ''18-24''), (''agreeToGuidelines'', JBool True)]))"
    by (simp add: tags_def)
  then show ?thesis
    using invalid_preferences_rejected [of _ insertionSort "''C''" False pairedAB] by blast
qed

section \<open>Runs of the server\<close>

text \<open>The insertion sort is a sort in the sense asked of the engine's.\<close>

lemma set_insertBy: "set (insertBy cmp x xs) = insert x (set xs)"
  by (induction xs) auto

lemma set_insertionSort: "set (insertionSort cmp xs) = set xs"
  by (induction xs) (auto simp: set_insertBy)

lemma sortKeepsElements_insertionSort: "sortKeepsElements insertionSort"
  by (simp add: sortKeepsElements_def set_insertionSort)

lemmas run_defs =
  onFindChat_def onNext_def onReport_def onDisconnect_def onMessage_def
  onOffer_def onAnswer_def onIceCandidate_def deletePairs_def orElse_def isTruthy_def
  findBestMatch_def isCandidate_def toMatch_def findCommonTags_def compareMatches_def
  validatePreferences_def tags_def language_def ageGroup_def agreeToGuidelines_def
  examplePreferences_def initialState_def paired_def Let_def

lemma run_pairedAB:
  "run insertionSort initialState
     [(''B'', FindChat (examplePreferences [''Art'', ''Gaming'']) False),
      (''A'', FindChat (examplePreferences [''Music'', ''Art'']) False)] = pairedAB"
  by (simp add: run_defs pairedAB_def)

text \<open>
  Claim C2 (pairing symmetry), as the code has it. In every state reached from the
  initial state by a run in which each \<^verbatim>\<open>findChat\<close> comes from a session that has no
  pairing at that moment, both pairing tables are symmetric: if \<open>a\<close> is paired with \<open>b\<close>
  under a mode, then \<open>b\<close> is paired with \<open>a\<close> under that mode. The run may contain any
  other events (relay, message, next, report, disconnect) from any session.
\<close>

theorem pairing_symmetry:
  assumes "sortKeepsElements srt" and "findChatWhenUnpaired srt initialState evs"
  shows "\<forall>a b. (chatPairs (run srt initialState evs) a = Some b \<longrightarrow>
                  chatPairs (run srt initialState evs) b = Some a) \<and>
                (videoChatPairs (run srt initialState evs) a = Some b \<longrightarrow>
                  videoChatPairs (run srt initialState evs) b = Some a)"
proof -
  have "inv (run srt initialState evs)"
    using assms inv_initialState by (intro inv_run)
  then show ?thesis
    using symmetricD unfolding inv_def by blast
qed

theorem pairing_symmetry_witness:
  "sortKeepsElements insertionSort \<and>
   findChatWhenUnpaired insertionSort initialState
     [(''B'', FindChat (examplePreferences [''Art'', ''Gaming'']) False),
      (''A'', FindChat (examplePreferences [''Music'', ''Art'']) False)] \<and>
   chatPairs (run insertionSort initialState
     [(''B'', FindChat (examplePreferences [''Art'', ''Gaming'']) False),
      (''A'', FindChat (examplePreferences [''Music'', ''Art'']) False)]) ''A'' = Some ''B'' \<and>
   chatPairs (run insertionSort initialState
     [(''B'', FindChat (examplePreferences [''Art'', ''Gaming'']) False),
      (''A'', FindChat (examplePreferences [''Music'', ''Art'']) False)]) ''B'' = Some ''A''"
proof -
  let ?evs = "[(''B'', FindChat (examplePreferences [''Art'', ''Gaming'']) False),
               (''A'', FindChat (examplePreferences [''Music'', ''Art'']) False)]"
  have g: "findChatWhenUnpaired insertionSort initialState ?evs"
    by (simp add: run_defs)
  have ab: "chatPairs (run insertionSort initialState ?evs) ''A'' = Some ''B''"
    unfolding run_pairedAB by (simp add: pairedAB_def)
  from pairing_symmetry [OF sortKeepsElements_insertionSort g] ab
  have "chatPairs (run insertionSort initialState ?evs) ''B'' = Some ''A''" by blast
  with sortKeepsElements_insertionSort g ab show ?thesis by blast
qed

text \<open>
  Without the restriction on \<^verbatim>\<open>findChat\<close> the symmetry fails, as the handler never looks
  at the pairing tables before it writes to them. A and B are paired in text mode, C waits
  in video mode, A asks for a video chat and is paired with C as well; then A's
  \<^verbatim>\<open>next\<close> finds the text partner B first and deletes the entries of A and of B from both
  tables, so that C remains paired with A while A is paired with nobody.
\<close>

theorem pairing_symmetry_counterexample:
  "videoChatPairs (run insertionSort initialState
     [(''B'', FindChat (examplePreferences [''Art'']) False),
      (''A'', FindChat (examplePreferences [''Art'']) False),
      (''C'', FindChat (examplePreferences [''Art'']) True),
      (''A'', FindChat (examplePreferences [''Art'']) True),
      (''A'', Next)]) ''C'' = Some ''A'' \<and>
   videoChatPairs (run insertionSort initialState
     [(''B'', FindChat (examplePreferences [''Art'']) False),
      (''A'', FindChat (examplePreferences [''Art'']) False),
      (''C'', FindChat (examplePreferences [''Art'']) True),
      (''A'', FindChat (examplePreferences [''Art'']) True),
      (''A'', Next)]) ''A'' = None"
  by (simp add: run_defs)

section \<open>The block list\<close>

lemma reportedUsers_onFindChat:
  "reportedUsers (snd (onFindChat srt sid prefs video s)) = reportedUsers s"
  by (simp add: onFindChat_def Let_def split: option.splits)

lemma reportedUsers_onNext: "reportedUsers (snd (onNext sid s)) = reportedUsers s"
  by (simp add: onNext_def Let_def deletePairs_simps split: option.splits prod.splits)

lemma reportedUsers_onMessage: "reportedUsers (snd (onMessage sid m s)) = reportedUsers s"
  by (simp add: onMessage_def Let_def split: option.splits)

lemma reportedUsers_onReport: "reportedUsers s \<subseteq> reportedUsers (snd (onReport sid r s))"
  by (auto simp: onReport_def Let_def deletePairs_simps split: option.splits)

lemma reportedUsers_onDisconnect:
  "reportedUsers (snd (onDisconnect sid s)) = reportedUsers s - {sid}"
  by (simp add: onDisconnect_def Let_def deletePairs_simps split: option.splits prod.splits)

lemma reported_handle:
  assumes "b \<in> reportedUsers s" and "(sid, e) \<noteq> (b, Disconnect)"
  shows "b \<in> reportedUsers (snd (handle srt sid e s))"
proof (cases e)
  case (Report r)
  with assms(1) reportedUsers_onReport [of s sid r] show ?thesis by auto
next
  case Disconnect
  with assms show ?thesis by (simp add: reportedUsers_onDisconnect)
qed (use assms(1) in \<open>simp_all add: reportedUsers_onFindChat reportedUsers_onNext
       reportedUsers_onMessage onOffer_def onAnswer_def onIceCandidate_def\<close>)

lemma reported_run:
  "b \<in> reportedUsers s \<Longrightarrow> (b, Disconnect) \<notin> set evs \<Longrightarrow> b \<in> reportedUsers (run srt s evs)"
proof (induction evs arbitrary: s)
  case Nil
  then show ?case by simp
next
  case (Cons ev evs)
  obtain sid e where ev: "ev = (sid, e)" by (cases ev)
  with Cons.prems have "b \<in> reportedUsers (snd (handle srt sid e s))"
    by (intro reported_handle) auto
  with Cons ev show ?case by simp
qed

lemma reported_after_report:
  "orElse (chatPairs s a) (videoChatPairs s a) = Some b \<Longrightarrow> b \<noteq> [] \<Longrightarrow>
   b \<in> reportedUsers (snd (onReport a reason s))"
  by (simp add: onReport_def deletePairs_simps)

lemma findBestMatch_not_reported:
  "sortKeepsElements srt \<Longrightarrow> findBestMatch srt usr s = Some m \<Longrightarrow> socketId m \<notin> reportedUsers s"
  using findBestMatch_Some [of srt usr s m] by (simp add: isCandidate_def)

lemma onFindChat_addressees:
  assumes "sortKeepsElements srt" and "(x, ev) \<in> set (fst (onFindChat srt sid prefs video s))"
  shows "x = sid \<or> (x \<in> socketId ` set (waitingUsers s) \<and> x \<notin> reportedUsers s)"
proof (cases "validatePreferences prefs")
  case False
  with assms(2) show ?thesis by (simp add: onFindChat_def)
next
  case True
  define s1 where "s1 = s\<lparr>waitingUsers := removeFirst (\<lambda>u. socketId u = sid) (waitingUsers s)\<rparr>"
  define usr where "usr = \<lparr>socketId = sid, preferences = prefs, isVideoChat = video\<rparr>"
  show ?thesis
  proof (cases "findBestMatch srt usr s1")
    case None
    with True assms(2) show ?thesis
      by (simp add: onFindChat_def Let_def s1_def [symmetric] usr_def [symmetric])
  next
    case (Some m)
    from findBestMatch_Some [OF assms(1) Some] findBestMatch_not_reported [OF assms(1) Some]
    have "socketId m \<in> socketId ` set (waitingUsers s)" "socketId m \<notin> reportedUsers s"
      using set_removeFirst [of "\<lambda>u. socketId u = sid" "waitingUsers s"]
      by (auto simp: s1_def)
    with True Some assms(2) show ?thesis
      by (auto simp: onFindChat_def Let_def s1_def [symmetric] usr_def [symmetric])
  qed
qed

text \<open>
  The report handler blocks the partner that its own lookup finds: the text partner, or
  the video partner when there is no text partner. From then on, through any run without
  a disconnect of that session, the session stays on the block list, is returned by
  \<open>findBestMatch\<close> for no requester and receives nothing from the \<^verbatim>\<open>findChat\<close> of another
  session; its disconnect takes it off the list.
\<close>

lemma block_exclusion_lookup:
  assumes "sortKeepsElements srt"
    and "orElse (chatPairs s a) (videoChatPairs s a) = Some b" and "b \<noteq> []"
    and "(b, Disconnect) \<notin> set evs"
  shows "b \<in> reportedUsers (run srt (snd (handle srt a (Report reason) s)) evs) \<and>
         (\<forall>usr m. findBestMatch srt usr (run srt (snd (handle srt a (Report reason) s)) evs) = Some m
                   \<longrightarrow> socketId m \<noteq> b) \<and>
         (\<forall>sid prefs video ev. sid \<noteq> b \<longrightarrow>
            (b, ev) \<notin> set (fst (handle srt sid (FindChat prefs video)
                                   (run srt (snd (handle srt a (Report reason) s)) evs)))) \<and>
         b \<notin> reportedUsers
               (snd (handle srt b Disconnect (run srt (snd (handle srt a (Report reason) s)) evs)))"
proof -
  define s' where "s' = run srt (snd (handle srt a (Report reason) s)) evs"
  have "b \<in> reportedUsers (snd (handle srt a (Report reason) s))"
    using assms(2,3) by (simp add: reported_after_report)
  then have r: "b \<in> reportedUsers s'"
    unfolding s'_def using assms(4) by (rule reported_run)
  have m: "\<forall>usr m. findBestMatch srt usr s' = Some m \<longrightarrow> socketId m \<noteq> b"
    using r findBestMatch_not_reported [OF assms(1)] by blast
  have f: "\<forall>sid prefs video ev. sid \<noteq> b \<longrightarrow>
             (b, ev) \<notin> set (fst (handle srt sid (FindChat prefs video) s'))"
    using r onFindChat_addressees [OF assms(1)] by fastforce
  have d: "b \<notin> reportedUsers (snd (handle srt b Disconnect s'))"
    by (simp add: reportedUsers_onDisconnect)
  from r m f d show ?thesis unfolding s'_def by blast
qed

lemma orElse_paired:
  assumes "inv s" and "chatPairs s a = Some b \<or> videoChatPairs s a = Some b" and "b \<noteq> []"
  shows "orElse (chatPairs s a) (videoChatPairs s a) = Some b"
  using assms(2)
proof
  assume "chatPairs s a = Some b"
  with assms(3) show ?thesis by (simp add: orElse_def isTruthy_def)
next
  assume v: "videoChatPairs s a = Some b"
  from assms(1) have "chatPairs s a = None \<or> videoChatPairs s a = None"
    by (simp add: inv_def)
  with v have "chatPairs s a = None" by simp
  with v show ?thesis by (simp add: orElse_def isTruthy_def)
qed

text \<open>
  Claim C5 (block exclusion), as the code has it. Take a state reached from the initial
  state by a run in which each \<^verbatim>\<open>findChat\<close> comes from a session that has no pairing at
  that moment, and let \<open>a\<close> be paired with \<open>b\<close> there, in text or in video mode. After the
  report of \<open>a\<close>, and after any run of further events that contains no disconnect of
  \<open>b\<close>: \<open>b\<close> is in the block list; \<open>findBestMatch\<close> returns \<open>b\<close> for no requester; no
  \<^verbatim>\<open>findChat\<close> of another session sends anything to \<open>b\<close>; and the disconnect of \<open>b\<close>
  takes \<open>b\<close> off the block list.
\<close>

theorem block_exclusion:
  assumes "sortKeepsElements srt" and "findChatWhenUnpaired srt initialState evs0"
    and "chatPairs (run srt initialState evs0) a = Some b \<or>
         videoChatPairs (run srt initialState evs0) a = Some b"
    and "b \<noteq> []" and "(b, Disconnect) \<notin> set evs"
  shows "b \<in> reportedUsers
           (run srt (snd (handle srt a (Report reason) (run srt initialState evs0))) evs) \<and>
         (\<forall>usr m. findBestMatch srt usr
                     (run srt (snd (handle srt a (Report reason) (run srt initialState evs0))) evs)
                   = Some m \<longrightarrow> socketId m \<noteq> b) \<and>
         (\<forall>sid prefs video ev. sid \<noteq> b \<longrightarrow>
            (b, ev) \<notin> set (fst (handle srt sid (FindChat prefs video)
               (run srt (snd (handle srt a (Report reason) (run srt initialState evs0))) evs)))) \<and>
         b \<notin> reportedUsers
               (snd (handle srt b Disconnect
                  (run srt (snd (handle srt a (Report reason) (run srt initialState evs0))) evs)))"
proof -
  have "inv (run srt initialState evs0)"
    using assms(1) inv_initialState assms(2) by (rule inv_run)
  then have "orElse (chatPairs (run srt initialState evs0) a)
                    (videoChatPairs (run srt initialState evs0) a) = Some b"
    using assms(3,4) by (rule orElse_paired)
  from block_exclusion_lookup [OF assms(1) this assms(4,5)] show ?thesis .
qed

theorem block_exclusion_witness:
  "sortKeepsElements insertionSort \<and>
   findChatWhenUnpaired insertionSort initialState
     [(''B'', FindChat (examplePreferences [''Art'', ''Gaming'']) False),
      (''A'', FindChat (examplePreferences [''Music'', ''Art'']) False)] \<and>
   chatPairs (run insertionSort initialState
     [(''B'', FindChat (examplePreferences [''Art'', ''Gaming'']) False),
      (''A'', FindChat (examplePreferences [''Music'', ''Art'']) False)]) ''A'' = Some ''B'' \<and>
   ''B'' \<noteq> [] \<and>
   (''B'', Disconnect) \<notin> set [(''B'', FindChat (examplePreferences [''Art'']) False)] \<and>
   ''B'' \<in> reportedUsers
      (run insertionSort (snd (handle insertionSort ''A'' (Report ''abusive'')
         (run insertionSort initialState
           [(''B'', FindChat (examplePreferences [''Art'', ''Gaming'']) False),
            (''A'', FindChat (examplePreferences [''Music'', ''Art'']) False)])))
         [(''B'', FindChat (examplePreferences [''Art'']) False)]) \<and>
   findBestMatch insertionSort
      \<lparr>socketId = ''C'', preferences = examplePreferences [''Art''], isVideoChat = False\<rparr>
      (run insertionSort (snd (handle insertionSort ''A'' (Report ''abusive'')
         (run insertionSort initialState
           [(''B'', FindChat (examplePreferences [''Art'', ''Gaming'']) False),
            (''A'', FindChat (examplePreferences [''Music'', ''Art'']) False)])))
         [(''B'', FindChat (examplePreferences [''Art'']) False)]) = None \<and>
   ''B'' \<notin> reportedUsers
      (snd (handle insertionSort ''B'' Disconnect
         (run insertionSort (snd (handle insertionSort ''A'' (Report ''abusive'')
            (run insertionSort initialState
              [(''B'', FindChat (examplePreferences [''Art'', ''Gaming'']) False),
               (''A'', FindChat (examplePreferences [''Music'', ''Art'']) False)])))
            [(''B'', FindChat (examplePreferences [''Art'']) False)])))"
proof -
  let ?before = "[(''B'', FindChat (examplePreferences [''Art'', ''Gaming'']) False),
                (''A'', FindChat (examplePreferences [''Music'', ''Art'']) False)]"
  let ?after = "[(''B'', FindChat (examplePreferences [''Art'']) False)]"
  have g: "findChatWhenUnpaired insertionSort initialState ?before"
    by (simp add: run_defs)
  have ab: "chatPairs (run insertionSort initialState ?before) ''A'' = Some ''B''"
    unfolding run_pairedAB by (simp add: pairedAB_def)
  then have pr: "chatPairs (run insertionSort initialState ?before) ''A'' = Some ''B'' \<or>
                 videoChatPairs (run insertionSort initialState ?before) ''A'' = Some ''B''" ..
  have ne: "''B'' \<noteq> []" by simp
  have nd: "(''B'', Disconnect) \<notin> set ?after" by simp
  have n: "findBestMatch insertionSort
      \<lparr>socketId = ''C'', preferences = examplePreferences [''Art''], isVideoChat = False\<rparr>
      (run insertionSort (snd (handle insertionSort ''A'' (Report ''abusive'')
         (run insertionSort initialState ?before))) ?after) = None"
    unfolding run_pairedAB by (simp add: run_defs pairedAB_def)
  note t = block_exclusion [OF sortKeepsElements_insertionSort g pr ne nd, of "''abusive''"]
  from t have r: "''B'' \<in> reportedUsers
      (run insertionSort (snd (handle insertionSort ''A'' (Report ''abusive'')
         (run insertionSort initialState ?before))) ?after)" by (rule conjunct1)
  from t have d: "''B'' \<notin> reportedUsers
      (snd (handle insertionSort ''B'' Disconnect
         (run insertionSort (snd (handle insertionSort ''A'' (Report ''abusive'')
            (run insertionSort initialState ?before))) ?after)))"
    by (rule conjunct2 [OF conjunct2 [OF conjunct2]])
  from sortKeepsElements_insertionSort g ab ne nd r n d show ?thesis by (intro conjI)
qed

text \<open>
  For a session with two partners the report reaches only one of them. A is paired with
  X in text mode and, by a \<^verbatim>\<open>findChat\<close> sent while paired, with B in video mode. The
  report of A finds the text partner X first: X is blocked and told that the chat ended,
  B is not blocked, and once B waits again the matchmaker returns B to a requester C.
\<close>

theorem block_exclusion_counterexample:
  "videoChatPairs (run insertionSort initialState
     [(''X'', FindChat (examplePreferences [''Art'']) False),
      (''A'', FindChat (examplePreferences [''Art'']) False),
      (''B'', FindChat (examplePreferences [''Art'']) True),
      (''A'', FindChat (examplePreferences [''Art'']) True)]) ''A'' = Some ''B'' \<and>
   videoChatPairs (run insertionSort initialState
     [(''X'', FindChat (examplePreferences [''Art'']) False),
      (''A'', FindChat (examplePreferences [''Art'']) False),
      (''B'', FindChat (examplePreferences [''Art'']) True),
      (''A'', FindChat (examplePreferences [''Art'']) True)]) ''B'' = Some ''A'' \<and>
   fst (handle insertionSort ''A'' (Report ''abusive'')
     (run insertionSort initialState
       [(''X'', FindChat (examplePreferences [''Art'']) False),
        (''A'', FindChat (examplePreferences [''Art'']) False),
        (''B'', FindChat (examplePreferences [''Art'']) True),
        (''A'', FindChat (examplePreferences [''Art'']) True)])) = [(''X'', EmitChatEnded)] \<and>
   ''B'' \<notin> reportedUsers (run insertionSort initialState
     [(''X'', FindChat (examplePreferences [''Art'']) False),
      (''A'', FindChat (examplePreferences [''Art'']) False),
      (''B'', FindChat (examplePreferences [''Art'']) True),
      (''A'', FindChat (examplePreferences [''Art'']) True),
      (''A'', Report ''abusive'')]) \<and>
   findBestMatch insertionSort
     \<lparr>socketId = ''C'', preferences = examplePreferences [''Art''], isVideoChat = False\<rparr>
     (run insertionSort initialState
       [(''X'', FindChat (examplePreferences [''Art'']) False),
        (''A'', FindChat (examplePreferences [''Art'']) False),
        (''B'', FindChat (examplePreferences [''Art'']) True),
        (''A'', FindChat (examplePreferences [''Art'']) True),
        (''A'', Report ''abusive''),
        (''B'', FindChat (examplePreferences [''Art'']) False)])
   = Some \<lparr>socketId = ''B'', preferences = examplePreferences [''Art''], isVideoChat = False\<rparr>"
  by (simp add: run_defs)


section \<open>One partner at a time\<close>

lemma symmetric_inj:
  assumes "symmetric m" and "m a = Some c" and "m b = Some c"
  shows "a = b"
proof -
  have "m c = Some a" using assms(1,2) by (rule symmetricD)
  moreover have "m c = Some b" using assms(1,3) by (rule symmetricD)
  ultimately show ?thesis by simp
qed

text \<open>
  Claim C3 (no double pairing), as the code has it. In every state reached from the
  initial state by a run in which each \<^verbatim>\<open>findChat\<close> comes from a session that has no
  pairing at that moment: no session has a partner in both modes, no session is the
  partner of two sessions in a mode, and a \<^verbatim>\<open>findChat\<close> of an unpaired session sends
  \<^verbatim>\<open>chatFound\<close> (or anything else) only to sessions that were unpaired, so it pairs two
  sessions that had no partner. The code has no failure for a session that is paired
  already: the handler writes both directions unconditionally.
\<close>

theorem no_double_pairing:
  assumes "sortKeepsElements srt" and "findChatWhenUnpaired srt initialState evs"
  shows "(\<forall>a. chatPairs (run srt initialState evs) a = None \<or>
              videoChatPairs (run srt initialState evs) a = None) \<and>
         (\<forall>a b c. chatPairs (run srt initialState evs) a = Some c \<and>
                  chatPairs (run srt initialState evs) b = Some c \<longrightarrow> a = b) \<and>
         (\<forall>a b c. videoChatPairs (run srt initialState evs) a = Some c \<and>
                  videoChatPairs (run srt initialState evs) b = Some c \<longrightarrow> a = b) \<and>
         (\<forall>sid prefs video x ev.
            \<not> paired (run srt initialState evs) sid \<and>
            (x, ev) \<in> set (fst (handle srt sid (FindChat prefs video) (run srt initialState evs)))
            \<longrightarrow> \<not> paired (run srt initialState evs) x)"
proof -
  define s where "s = run srt initialState evs"
  have i: "inv s"
    unfolding s_def using assms inv_initialState by (intro inv_run)
  then have sc: "symmetric (chatPairs s)" and sv: "symmetric (videoChatPairs s)"
    and dj: "\<forall>a. chatPairs s a = None \<or> videoChatPairs s a = None"
    and wu: "\<forall>u \<in> set (waitingUsers s). \<not> paired s (socketId u)"
    by (simp_all add: inv_def)
  have c: "\<forall>a b c. chatPairs s a = Some c \<and> chatPairs s b = Some c \<longrightarrow> a = b"
    using symmetric_inj [OF sc] by blast
  have v: "\<forall>a b c. videoChatPairs s a = Some c \<and> videoChatPairs s b = Some c \<longrightarrow> a = b"
    using symmetric_inj [OF sv] by blast
  have f: "\<forall>sid prefs video x ev.
            \<not> paired s sid \<and> (x, ev) \<in> set (fst (handle srt sid (FindChat prefs video) s))
            \<longrightarrow> \<not> paired s x"
    using onFindChat_addressees [OF assms(1)] wu by fastforce
  from dj c v f show ?thesis unfolding s_def by blast
qed

theorem no_double_pairing_witness:
  "sortKeepsElements insertionSort \<and>
   findChatWhenUnpaired insertionSort initialState
     [(''B'', FindChat (examplePreferences [''Art'', ''Gaming'']) False),
      (''A'', FindChat (examplePreferences [''Music'', ''Art'']) False)] \<and>
   chatPairs (run insertionSort initialState
     [(''B'', FindChat (examplePreferences [''Art'', ''Gaming'']) False),
      (''A'', FindChat (examplePreferences [''Music'', ''Art'']) False)]) ''A'' = Some ''B'' \<and>
   videoChatPairs (run insertionSort initialState
     [(''B'', FindChat (examplePreferences [''Art'', ''Gaming'']) False),
      (''A'', FindChat (examplePreferences [''Music'', ''Art'']) False)]) ''A'' = None"
proof -
  let ?evs = "[(''B'', FindChat (examplePreferences [''Art'', ''Gaming'']) False),
               (''A'', FindChat (examplePreferences [''Music'', ''Art'']) False)]"
  have g: "findChatWhenUnpaired insertionSort initialState ?evs"
    by (simp add: run_defs)
  have ab: "chatPairs (run insertionSort initialState ?evs) ''A'' = Some ''B''"
    unfolding run_pairedAB by (simp add: pairedAB_def)
  have "\<forall>a. chatPairs (run insertionSort initialState ?evs) a = None \<or>
            videoChatPairs (run insertionSort initialState ?evs) a = None"
    using no_double_pairing [OF sortKeepsElements_insertionSort g] by (rule conjunct1)
  then have "chatPairs (run insertionSort initialState ?evs) ''A'' = None \<or>
             videoChatPairs (run insertionSort initialState ?evs) ''A'' = None"
    by (rule spec)
  with ab have "videoChatPairs (run insertionSort initialState ?evs) ''A'' = None" by simp
  with sortKeepsElements_insertionSort g ab show ?thesis by (intro conjI)
qed

text \<open>
  The handler does not refuse a session that is paired. A and B are paired in text mode
  and C waits; a second \<^verbatim>\<open>findChat\<close> of A, again in text mode, is answered with
  \<^verbatim>\<open>chatFound\<close> and recorded, after which A is paired with C while B is still paired
  with A.
\<close>

theorem no_double_pairing_counterexample:
  "chatPairs (run insertionSort initialState
     [(''B'', FindChat (examplePreferences [''Art'']) False),
      (''A'', FindChat (examplePreferences [''Art'']) False),
      (''C'', FindChat (examplePreferences [''Art'']) False)]) ''A'' = Some ''B'' \<and>
   fst (handle insertionSort ''A'' (FindChat (examplePreferences [''Art'']) False)
     (run insertionSort initialState
       [(''B'', FindChat (examplePreferences [''Art'']) False),
        (''A'', FindChat (examplePreferences [''Art'']) False),
        (''C'', FindChat (examplePreferences [''Art'']) False)]))
     = [(''A'', EmitChatFound [JStr ''Art''] False ''C''),
        (''C'', EmitChatFound [JStr ''Art''] False ''A'')] \<and>
   chatPairs (snd (handle insertionSort ''A'' (FindChat (examplePreferences [''Art'']) False)
     (run insertionSort initialState
       [(''B'', FindChat (examplePreferences [''Art'']) False),
        (''A'', FindChat (examplePreferences [''Art'']) False),
        (''C'', FindChat (examplePreferences [''Art'']) False)]))) ''A'' = Some ''C'' \<and>
   chatPairs (snd (handle insertionSort ''A'' (FindChat (examplePreferences [''Art'']) False)
     (run insertionSort initialState
       [(''B'', FindChat (examplePreferences [''Art'']) False),
        (''A'', FindChat (examplePreferences [''Art'']) False),
        (''C'', FindChat (examplePreferences [''Art'']) False)]))) ''B'' = Some ''A''"
  by (simp add: run_defs)

section \<open>What the matchmaker compares\<close>

text \<open>
  Claim C1 (what a match requires). The candidate returned by \<open>findBestMatch\<close> waits,
  is not the requester, is not blocked, has the requester's language and shares a tag
  with the requester (lemma \<open>findBestMatch_Some\<close>). The chat mode is not among the
  tests: with B waiting for a text chat, the video request of A is answered with B, and
  the handler pairs the two in the video table and tells both that a video chat was found.
\<close>

theorem findBestMatch_chat_mode_ignored:
  "findBestMatch insertionSort
     \<lparr>socketId = ''A'', preferences = examplePreferences [''Music'', ''Art''], isVideoChat = True\<rparr>
     (initialState\<lparr>waitingUsers :=
        [\<lparr>socketId = ''B'', preferences = examplePreferences [''Art'', ''Gaming''],
          isVideoChat = False\<rparr>]\<rparr>)
   = Some \<lparr>socketId = ''B'', preferences = examplePreferences [''Art'', ''Gaming''],
           isVideoChat = False\<rparr> \<and>
   handle insertionSort ''A'' (FindChat (examplePreferences [''Music'', ''Art'']) True)
     (run insertionSort initialState
        [(''B'', FindChat (examplePreferences [''Art'', ''Gaming'']) False)])
   = ([(''A'', EmitChatFound [JStr ''Art''] True ''B''),
       (''B'', EmitChatFound [JStr ''Art''] True ''A'')],
      initialState\<lparr>videoChatPairs := [''A'' \<mapsto> ''B'', ''B'' \<mapsto> ''A'']\<rparr>)"
  by (simp add: run_defs)

section \<open>The next event\<close>

text \<open>The handler of \<^verbatim>\<open>next\<close> never changes the waiting list.\<close>

lemma onNext_waitingUsers: "waitingUsers (snd (onNext sid s)) = waitingUsers s"
  by (simp add: onNext_def Let_def deletePairs_simps split: option.splits prod.splits)

text \<open>
  Claim C4 (next). For A paired with B, \<^verbatim>\<open>next\<close> removes the pairing in both directions
  and sends one \<^verbatim>\<open>chatEnded\<close> to B. It does not run the matchmaking again: A is looked up
  in the waiting list, where a paired session is not to be found, and nothing follows, so
  A is left neither matched nor waiting. Running \<^verbatim>\<open>findChat\<close> for A in the state reached
  would have answered \<^verbatim>\<open>waiting\<close> and put A on the waiting list.
\<close>

theorem next_does_not_rematch:
  "handle insertionSort ''A'' Next pairedAB = ([(''B'', EmitChatEnded)], initialState) \<and>
   handle insertionSort ''A'' (FindChat (examplePreferences [''Music'', ''Art'']) False) initialState
     = ([(''A'', EmitWaiting)],
        initialState\<lparr>waitingUsers :=
          [\<lparr>socketId = ''A'', preferences = examplePreferences [''Music'', ''Art''],
            isVideoChat = False\<rparr>]\<rparr>)"
  by (simp add: run_defs pairedAB_def)

section \<open>Moderation notices\<close>

text \<open>
  Claim C10 (what the detector sees and the rewriting does not). For a sender \<open>a\<close> with
  text partner \<open>p\<close>, the \<^verbatim>\<open>messageModerated\<close> notice is sent exactly when the literal
  replacement of the banned words changes the message. A message in which no banned word
  occurs literally is forwarded to the partner as it is, without a notice, whatever the
  detector says; \<^verbatim>\<open>s-l-u-t\<close> is such a message, and the detector finds a banned word in it.
\<close>

theorem unmoderated_evasion:
  assumes "chatPairs s a = Some p" and "p \<noteq> []"
  shows "handle srt a (Message m) s =
           ((if replaceEach BANNED_WORDS m \<noteq> m
             then [(a, EmitMessageModerated m (replaceEach BANNED_WORDS m)
                         ''Message contained inappropriate language'')]
             else [])
            @ [(p, EmitMessage (replaceEach BANNED_WORDS m))], s) \<and>
         (list_all (\<lambda>w. \<not> occurs w m) BANNED_WORDS \<longrightarrow>
            handle srt a (Message m) s = ([(p, EmitMessage m)], s)) \<and>
         containsBannedWords ''s-l-u-t'' \<and>
         list_all (\<lambda>w. \<not> occurs w ''s-l-u-t'') BANNED_WORDS \<and>
         filterMessage ''s-l-u-t'' = ''s-l-u-t''"
proof -
  have h: "handle srt a (Message m) s =
           ((if replaceEach BANNED_WORDS m \<noteq> m
             then [(a, EmitMessageModerated m (replaceEach BANNED_WORDS m)
                         ''Message contained inappropriate language'')]
             else [])
            @ [(p, EmitMessage (replaceEach BANNED_WORDS m))], s)"
    using assms by (simp add: onMessage_def Let_def filterMessage_replaceEach)
  have c: "containsBannedWords ''s-l-u-t''" by code_simp
  have n: "list_all (\<lambda>w. \<not> occurs w ''s-l-u-t'') BANNED_WORDS" by code_simp
  from n have f: "filterMessage ''s-l-u-t'' = ''s-l-u-t''"
    by (simp add: filterMessage_replaceEach replaceEach_id)
  from h c n f show ?thesis by (simp add: replaceEach_id)
qed

theorem unmoderated_evasion_witness:
  "chatPairs pairedAB ''A'' = Some ''B'' \<and> ''B'' \<noteq> [] \<and>
   containsBannedWords ''s-l-u-t'' \<and>
   handle insertionSort ''A'' (Message ''s-l-u-t'') pairedAB
     = ([(''B'', EmitMessage ''s-l-u-t'')], pairedAB)"
proof -
  have p: "chatPairs pairedAB ''A'' = Some ''B''" "''B'' \<noteq> []"
    by (simp_all add: pairedAB_def)
  from unmoderated_evasion [OF p, of insertionSort "''s-l-u-t''"] p
  show ?thesis by blast
qed

end
